theory Spec2Isabelle
  imports Complex_Main "HOL-Library.Multiset" "HOL-Library.AList"
begin

section \<open>Graphs of the networkx library\<close>

text \<open>
  The calibration module builds its graphs with the networkx library, which is not part of
  the repository. A graph is modelled by what networkx stores: the nodes in insertion order
  and, for every node, its adjacency as an insertion-ordered association list from
  neighbour to edge data. \<open>nx.DiGraph\<close> keeps the successors of a node, \<open>nx.Graph\<close> keeps
  every edge under both of its endpoints.
\<close>

record ('v, 'd) graph =
  g_nodes :: "'v list"
  g_adj :: "('v \<times> ('v \<times> 'd) list) list"

definition empty_graph :: "('v, 'd) graph" where
  "empty_graph = \<lparr>g_nodes = [], g_adj = []\<rparr>"

definition add_node :: "'v \<Rightarrow> ('v, 'd) graph \<Rightarrow> ('v, 'd) graph" where
  "add_node v G = (if v \<in> set (g_nodes G) then G
                   else G\<lparr>g_nodes := g_nodes G @ [v], g_adj := g_adj G @ [(v, [])]\<rparr>)"

definition neighbours :: "('v, 'd) graph \<Rightarrow> 'v \<Rightarrow> ('v \<times> 'd) list" where
  "neighbours G v = (case map_of (g_adj G) v of None \<Rightarrow> [] | Some ns \<Rightarrow> ns)"

definition set_arc :: "'v \<Rightarrow> 'v \<Rightarrow> 'd \<Rightarrow> ('v, 'd) graph \<Rightarrow> ('v, 'd) graph" where
  "set_arc u v d G = G\<lparr>g_adj := AList.update u (AList.update v d (neighbours G u)) (g_adj G)\<rparr>"

text \<open>\<open>DiGraph.add_edge(u, v)\<close>: both nodes are created when absent, \<open>v\<close> becomes a
  successor of \<open>u\<close>.\<close>

definition di_add_edge :: "'v \<Rightarrow> 'v \<Rightarrow> 'd \<Rightarrow> ('v, 'd) graph \<Rightarrow> ('v, 'd) graph" where
  "di_add_edge u v d G = set_arc u v d (add_node v (add_node u G))"

text \<open>\<open>Graph.add_edge(u, v, **attr)\<close>: the edge is stored under both endpoints.\<close>

definition add_edge :: "'v \<Rightarrow> 'v \<Rightarrow> 'd \<Rightarrow> ('v, 'd) graph \<Rightarrow> ('v, 'd) graph" where
  "add_edge u v d G = set_arc v u d (set_arc u v d (add_node v (add_node u G)))"

text \<open>The arcs of a graph with their data, node by node in adjacency order (an undirected
  edge appears in both directions), and the arcs alone.\<close>

definition arcs_data :: "('v, 'd) graph \<Rightarrow> ('v \<times> 'v \<times> 'd) list" where
  "arcs_data G = concat (map (\<lambda>(u, ns). map (\<lambda>(v, d). (u, v, d)) ns) (g_adj G))"

definition arcs :: "('v, 'd) graph \<Rightarrow> ('v \<times> 'v) list" where
  "arcs G = map (\<lambda>(u, v, d). (u, v)) (arcs_data G)"

text \<open>\<open>DiGraph.to_undirected()\<close>: an undirected graph with the same nodes, to which every
  arc is added as an edge.\<close>

definition to_undirected :: "('v, 'd) graph \<Rightarrow> ('v, 'd) graph" where
  "to_undirected G =
     fold (\<lambda>(u, v, d) H. add_edge u v d H) (arcs_data G)
          (fold add_node (g_nodes G) empty_graph)"

text \<open>
  \<open>nx.find_cycle(G)\<close> with the default orientation follows the arcs in their direction and
  raises \<open>NetworkXNoCycle\<close> exactly when no directed cycle exists. Only whether it raises is
  used by the caller, so it is modelled by the predicate "a directed cycle exists".
\<close>

definition has_cycle :: "('v, 'd) graph \<Rightarrow> bool" where
  "has_cycle G = (\<exists>v \<in> set (g_nodes G). (v, v) \<in> (set (arcs G))\<^sup>+)"

text \<open>\<open>nx.number_connected_components(G)\<close> for an undirected graph: the number of distinct
  sets "nodes reachable from v", v ranging over the nodes.\<close>

definition node_component :: "('v, 'd) graph \<Rightarrow> 'v \<Rightarrow> 'v set" where
  "node_component G v = {u \<in> set (g_nodes G). u = v \<or> (v, u) \<in> (set (arcs G))\<^sup>+}"

definition number_connected_components :: "('v, 'd) graph \<Rightarrow> nat" where
  "number_connected_components G = card (node_component G ` set (g_nodes G))"

section \<open>Validation of a view tree\<close>

definition verify_view_tree :: "('v \<times> 'v) list \<Rightarrow> bool" where
  "verify_view_tree view_tree =
     (let G = fold (\<lambda>(view1, view2) G. di_add_edge view1 view2 () G) view_tree empty_graph;
          no_cycles_found = \<not> has_cycle G;
          is_connected = (number_connected_components (to_undirected G) = 1);
          is_valid = (no_cycles_found \<and> is_connected)
      in is_valid)"


section \<open>Properties of edge lists used to state the claims\<close>

text \<open>The views an edge list mentions.\<close>

definition nodes_of :: "('v \<times> 'v) list \<Rightarrow> 'v set" where
  "nodes_of es = fst ` set es \<union> snd ` set es"

text \<open>The directed graph that \<open>verify_view_tree\<close> builds from an edge list.\<close>

definition view_digraph :: "('v \<times> 'v) list \<Rightarrow> ('v, unit) graph" where
  "view_digraph es = fold (\<lambda>(view1, view2) G. di_add_edge view1 view2 () G) es empty_graph"

text \<open>A directed cycle: some view reaches itself along one or more edges.\<close>

definition directed_cycle :: "('v \<times> 'v) list \<Rightarrow> bool" where
  "directed_cycle t = (\<exists>v \<in> nodes_of t. (v, v) \<in> (set t)\<^sup>+)"

text \<open>All views of the edge list are linked when the direction of the edges is ignored.\<close>

definition weakly_connected :: "('v \<times> 'v) list \<Rightarrow> bool" where
  "weakly_connected t =
     (\<forall>u \<in> nodes_of t. \<forall>v \<in> nodes_of t. u = v \<or> (u, v) \<in> (set t \<union> (set t)\<inverse>)\<^sup>+)"

text \<open>
  A spanning arborescence of the views, rooted at \<open>v0\<close>: the edges run between views,
  every view is reached from the root, no edge enters the root and no view is entered by
  two edges. (A rig of one view is spanned by the empty edge list.)
\<close>

definition spanning_arborescence :: "'v list \<Rightarrow> 'v \<Rightarrow> ('v \<times> 'v) list \<Rightarrow> bool" where
  "spanning_arborescence views v0 t =
     (v0 \<in> set views \<and> nodes_of t \<subseteq> set views
      \<and> (\<forall>v \<in> set views. v = v0 \<or> (v0, v) \<in> (set t)\<^sup>+)
      \<and> (\<forall>e \<in> set t. snd e \<noteq> v0)
      \<and> (\<forall>e \<in> set t. \<forall>e' \<in> set t. snd e = snd e' \<longrightarrow> fst e = fst e'))"

text \<open>The representation invariant of a graph: one adjacency entry per node, in node order.\<close>

definition wf_graph :: "('v, 'd) graph \<Rightarrow> bool" where
  "wf_graph G = (map fst (g_adj G) = g_nodes G \<and> distinct (g_nodes G))"


section \<open>Errors\<close>

text \<open>
  Every exception the modelled functions can raise is a value: the Python exception class,
  with the stuck pairs for the \<open>RuntimeError\<close> of the concatenation and the message for a
  \<open>ValueError\<close>.
\<close>

datatype 'v error =
    KeyError
  | IndexError
  | ValueError string
  | AssertionError
  | NodeNotFound
  | RuntimeError "('v \<times> 'v) list"

section \<open>The view graph\<close>

text \<open>
  The landmark store maps a view to its 2D landmarks and their timestamps
  (\<open>landmarks[view]["landmarks"]\<close>, \<open>landmarks[view]["timestamp"]\<close>).
\<close>

record 't view_landmarks =
  lm_landmarks :: "(real \<times> real) list"
  lm_timestamp :: "'t list"

text \<open>\<open>itertools.combinations(xs, 2)\<close>, in its order.\<close>

fun combinations2 :: "'a list \<Rightarrow> ('a \<times> 'a) list" where
  "combinations2 [] = []"
| "combinations2 (x # xs) = map (Pair x) xs @ combinations2 xs"

text \<open>The loop of \<open>build_view_graph\<close> over the pairs of views; a view missing from the
  landmark store raises \<open>KeyError\<close>. The edge attribute \<open>n_points\<close> is the edge data.\<close>

fun add_view_edges ::
  "('v \<rightharpoonup> 't view_landmarks) \<Rightarrow> ('v \<times> 'v) list \<Rightarrow> ('v, nat) graph \<Rightarrow> 'v error + ('v, nat) graph"
where
  "add_view_edges landmarks [] G = Inr G"
| "add_view_edges landmarks ((view1, view2) # ps) G =
     (case landmarks view1 of
        None \<Rightarrow> Inl KeyError
      | Some l1 \<Rightarrow>
          (case landmarks view2 of
             None \<Rightarrow> Inl KeyError
           | Some l2 \<Rightarrow>
               (let t1 = lm_timestamp l1;
                    t2 = lm_timestamp l2;
                    intersection = set t1 \<inter> set t2
                in add_view_edges landmarks ps
                     (if card intersection > 8
                      then add_edge view1 view2 (card intersection) G
                      else G))))"

definition build_view_graph ::
  "'v list \<Rightarrow> ('v \<rightharpoonup> 't view_landmarks) \<Rightarrow> 'v error + ('v, nat) graph"
where
  "build_view_graph views landmarks =
     add_view_edges landmarks (combinations2 views) (fold add_node views empty_graph)"

text \<open>\<open>G[u][v]\<close>: the data of the edge between two nodes, if there is one.\<close>

definition edge_data :: "('v, 'd) graph \<Rightarrow> 'v \<Rightarrow> 'v \<Rightarrow> 'd option" where
  "edge_data G u v = map_of (neighbours G u) v"

text \<open>The number of timestamps two views share.\<close>

definition shared_count :: "('v \<rightharpoonup> 't view_landmarks) \<Rightarrow> 'v \<Rightarrow> 'v \<Rightarrow> nat" where
  "shared_count landmarks u v =
     (case (landmarks u, landmarks v) of
        (Some l1, Some l2) \<Rightarrow> card (set (lm_timestamp l1) \<inter> set (lm_timestamp l2))
      | _ \<Rightarrow> 0)"


section \<open>Numbers, vectors and matrices\<close>

text \<open>
  A Python float is modelled as an exact real number or NaN: rounding and overflow are not
  modelled. NaN is what numpy returns for the median or the standard deviation of an empty
  array and for 0/0, and it propagates through every arithmetic operation; a comparison
  with NaN is false. A division of a non-zero number by zero (numpy's inf) is only reached
  where the result is filtered away at once, see \<open>scale_ratio\<close> below.
\<close>

datatype fl = Fl real | NaN

instantiation fl :: "{zero, one, plus, minus, uminus, times, inverse}"
begin

definition zero_fl :: fl where "zero_fl = Fl 0"

definition one_fl :: fl where "one_fl = Fl 1"

definition plus_fl :: "fl \<Rightarrow> fl \<Rightarrow> fl" where
  "plus_fl a b = (case (a, b) of (Fl x, Fl y) \<Rightarrow> Fl (x + y) | _ \<Rightarrow> NaN)"

definition minus_fl :: "fl \<Rightarrow> fl \<Rightarrow> fl" where
  "minus_fl a b = (case (a, b) of (Fl x, Fl y) \<Rightarrow> Fl (x - y) | _ \<Rightarrow> NaN)"

definition uminus_fl :: "fl \<Rightarrow> fl" where
  "uminus_fl a = (case a of Fl x \<Rightarrow> Fl (- x) | NaN \<Rightarrow> NaN)"

definition times_fl :: "fl \<Rightarrow> fl \<Rightarrow> fl" where
  "times_fl a b = (case (a, b) of (Fl x, Fl y) \<Rightarrow> Fl (x * y) | _ \<Rightarrow> NaN)"

definition divide_fl :: "fl \<Rightarrow> fl \<Rightarrow> fl" where
  "divide_fl a b = (case (a, b) of (Fl x, Fl y) \<Rightarrow> (if y = 0 then NaN else Fl (x / y)) | _ \<Rightarrow> NaN)"

definition inverse_fl :: "fl \<Rightarrow> fl" where
  "inverse_fl a = (case a of Fl x \<Rightarrow> (if x = 0 then NaN else Fl (1 / x)) | NaN \<Rightarrow> NaN)"

instance ..

end

definition fl_sqrt :: "fl \<Rightarrow> fl" where
  "fl_sqrt a = (case a of Fl x \<Rightarrow> Fl (sqrt x) | NaN \<Rightarrow> NaN)"

text \<open>\<open>a < b\<close> on floats: false as soon as one side is NaN.\<close>

definition fl_less :: "fl \<Rightarrow> fl \<Rightarrow> bool" where
  "fl_less a b = (case (a, b) of (Fl x, Fl y) \<Rightarrow> x < y | _ \<Rightarrow> False)"

text \<open>A conversion applied to every entry of an array (\<open>np.float32\<close>).\<close>

definition fl_map :: "(real \<Rightarrow> real) \<Rightarrow> fl \<Rightarrow> fl" where
  "fl_map f a = (case a of Fl x \<Rightarrow> Fl (f x) | NaN \<Rightarrow> NaN)"

text \<open>
  A 3-vector (a point, a translation; the code stores a translation as a 3x1 nested list)
  and a 3x3 matrix, given by its rows.
\<close>

type_synonym vec3 = "fl \<times> fl \<times> fl"

type_synonym mat3 = "vec3 \<times> vec3 \<times> vec3"

definition v_zero :: vec3 where
  "v_zero = (0, 0, 0)"

definition m_eye :: mat3 where
  "m_eye = ((1, 0, 0), (0, 1, 0), (0, 0, 1))"

fun v_add :: "vec3 \<Rightarrow> vec3 \<Rightarrow> vec3" where
  "v_add (a1, a2, a3) (b1, b2, b3) = (a1 + b1, a2 + b2, a3 + b3)"

fun v_sub :: "vec3 \<Rightarrow> vec3 \<Rightarrow> vec3" where
  "v_sub (a1, a2, a3) (b1, b2, b3) = (a1 - b1, a2 - b2, a3 - b3)"

fun v_scale :: "vec3 \<Rightarrow> fl \<Rightarrow> vec3" where
  "v_scale (a1, a2, a3) s = (a1 * s, a2 * s, a3 * s)"

fun v_div :: "vec3 \<Rightarrow> fl \<Rightarrow> vec3" where
  "v_div (a1, a2, a3) s = (a1 / s, a2 / s, a3 / s)"

fun v_dot :: "vec3 \<Rightarrow> vec3 \<Rightarrow> fl" where
  "v_dot (a1, a2, a3) (b1, b2, b3) = a1 * b1 + a2 * b2 + a3 * b3"

fun v_map :: "(real \<Rightarrow> real) \<Rightarrow> vec3 \<Rightarrow> vec3" where
  "v_map f (a1, a2, a3) = (fl_map f a1, fl_map f a2, fl_map f a3)"

text \<open>\<open>np.linalg.norm\<close> of a vector.\<close>

definition v_norm :: "vec3 \<Rightarrow> fl" where
  "v_norm a = fl_sqrt (v_dot a a)"

fun m_transpose :: "mat3 \<Rightarrow> mat3" where
  "m_transpose ((a11, a12, a13), (a21, a22, a23), (a31, a32, a33)) =
     ((a11, a21, a31), (a12, a22, a32), (a13, a23, a33))"

fun m_neg :: "mat3 \<Rightarrow> mat3" where
  "m_neg ((a11, a12, a13), (a21, a22, a23), (a31, a32, a33)) =
     ((- a11, - a12, - a13), (- a21, - a22, - a23), (- a31, - a32, - a33))"

fun m_map :: "(real \<Rightarrow> real) \<Rightarrow> mat3 \<Rightarrow> mat3" where
  "m_map f (r1, r2, r3) = (v_map f r1, v_map f r2, v_map f r3)"

text \<open>\<open>np.dot(A, x)\<close> for a matrix and a column vector, \<open>np.dot(A, B)\<close> for two matrices.\<close>

fun m_vec :: "mat3 \<Rightarrow> vec3 \<Rightarrow> vec3" where
  "m_vec (r1, r2, r3) x = (v_dot r1 x, v_dot r2 x, v_dot r3 x)"

definition m_mul :: "mat3 \<Rightarrow> mat3 \<Rightarrow> mat3" where
  "m_mul A B =
     (case m_transpose B of (c1, c2, c3) \<Rightarrow>
        (case A of (r1, r2, r3) \<Rightarrow>
           ((v_dot r1 c1, v_dot r1 c2, v_dot r1 c3),
            (v_dot r2 c1, v_dot r2 c2, v_dot r2 c3),
            (v_dot r3 c1, v_dot r3 c2, v_dot r3 c3))))"

text \<open>\<open>utils.invert_Rt\<close>.\<close>

definition invert_Rt :: "mat3 \<Rightarrow> vec3 \<Rightarrow> mat3 \<times> vec3" where
  "invert_Rt R t = (let Ri = m_transpose R; ti = m_vec (m_neg Ri) t in (Ri, ti))"

text \<open>Sums and means over lists of numbers, vectors and matrices (\<open>np.mean(xs, 0)\<close>).\<close>

definition fl_sum :: "fl list \<Rightarrow> fl" where
  "fl_sum xs = foldr (+) xs 0"

definition fl_mean :: "fl list \<Rightarrow> fl" where
  "fl_mean xs = (if xs = [] then NaN else fl_sum xs / Fl (real (length xs)))"

definition v_mean :: "vec3 list \<Rightarrow> vec3" where
  "v_mean ps = (fl_mean (map fst ps), fl_mean (map (fst \<circ> snd) ps), fl_mean (map (snd \<circ> snd) ps))"

definition m_mean :: "mat3 list \<Rightarrow> mat3" where
  "m_mean ms = (v_mean (map fst ms), v_mean (map (fst \<circ> snd) ms), v_mean (map (snd \<circ> snd) ms))"


section \<open>Point-set registration\<close>

text \<open>
  One entry of \<open>d2/d1\<close> as it passes the filter \<open>~isnan & ~isinf\<close>: a finite ratio, or
  nothing when a distance is NaN or \<open>d1\<close> is zero (numpy's 0/0 = nan and x/0 = inf).
\<close>

definition scale_ratio :: "fl \<Rightarrow> fl \<Rightarrow> real option" where
  "scale_ratio d2 d1 =
     (case (d2, d1) of
        (Fl y, Fl x) \<Rightarrow> (if x = 0 then None else Some (y / x))
      | _ \<Rightarrow> None)"

text \<open>\<open>np.median\<close> and \<open>np.std\<close> of an array of finite numbers; NaN for the empty array.\<close>

definition np_median :: "real list \<Rightarrow> fl" where
  "np_median xs =
     (let s = sort xs; n = length s
      in if n = 0 then NaN
         else if odd n then Fl (s ! (n div 2))
         else Fl ((s ! (n div 2 - 1) + s ! (n div 2)) / 2))"

definition np_mean :: "real list \<Rightarrow> real" where
  "np_mean xs = sum_list xs / real (length xs)"

definition np_std :: "real list \<Rightarrow> fl" where
  "np_std xs =
     (if xs = [] then NaN
      else Fl (sqrt (np_mean (map (\<lambda>x. \<bar>x - np_mean xs\<bar>\<^sup>2) xs))))"

text \<open>
  \<open>estimate_scale_point_sets(src, dst, max_est)\<close>. The argument \<open>idxs\<close> is the index array
  after \<open>np.random.shuffle\<close>: some permutation of \<open>0 .. len(src) - 1\<close>. With fewer than two
  indices \<open>idx_pairs\<close> is an array of shape (0,), and \<open>idx_pairs[:,0]\<close> raises \<open>IndexError\<close>;
  so does an index beyond the end of \<open>dst\<close>.
\<close>

definition estimate_scale_point_sets ::
  "nat list \<Rightarrow> vec3 list \<Rightarrow> vec3 list \<Rightarrow> real \<Rightarrow> 'v error + (fl \<times> fl)"
where
  "estimate_scale_point_sets idxs src dst max_est =
     (let idx_pairs = combinations2 idxs
      in if idx_pairs = [] then Inl IndexError
         else if \<exists>i \<in> set idxs. length src \<le> i \<or> length dst \<le> i then Inl IndexError
         else
           (let d1 = map (\<lambda>(i, j). v_norm (v_sub (src ! i) (src ! j))) idx_pairs;
                d2 = map (\<lambda>(i, j). v_norm (v_sub (dst ! i) (dst ! j))) idx_pairs;
                scales = map2 scale_ratio d2 d1;
                scales_clean = filter (\<lambda>r. r < max_est) (List.map_filter id scales)
            in Inr (np_median scales_clean, np_std scales_clean)))"

text \<open>\<open>average_distance\<close> and \<open>apply_rigid_transform\<close>.\<close>

definition average_distance :: "vec3 list \<Rightarrow> vec3 list \<Rightarrow> fl" where
  "average_distance X Y = fl_mean (map (\<lambda>(x, y). v_norm (v_sub x y)) (zip X Y))"

definition apply_rigid_transform :: "vec3 list \<Rightarrow> mat3 \<Rightarrow> vec3 \<Rightarrow> fl \<Rightarrow> vec3 list" where
  "apply_rigid_transform X R t scale = map (\<lambda>x. v_add (m_vec R (v_scale x scale)) t) X"

text \<open>\<open>np.linalg.norm\<close> of an N x 3 array (the Frobenius norm).\<close>

definition frobenius_norm :: "vec3 list \<Rightarrow> fl" where
  "frobenius_norm P = fl_sqrt (fl_sum (map (\<lambda>p. v_dot p p) P))"

text \<open>
  \<open>procrustes_registration(src, dst)\<close>. SciPy's \<open>orthogonal_procrustes\<close> (a singular value
  decomposition) is outside the repository and is a parameter: it returns a rotation and a
  scale, or raises. The arrays come from \<open>np.array\<close> of a list of points, so that an empty
  one has shape (0,) and \<open>src.shape[1]\<close> raises \<open>IndexError\<close>.
\<close>

definition procrustes_registration ::
  "(vec3 list \<Rightarrow> vec3 list \<Rightarrow> 'v error + (mat3 \<times> fl)) \<Rightarrow> vec3 list \<Rightarrow> vec3 list
     \<Rightarrow> 'v error + (fl \<times> mat3 \<times> vec3 \<times> fl)"
where
  "procrustes_registration orthogonal_procrustes src dst =
     (if length src \<noteq> length dst then Inl AssertionError
      else if src = [] then Inl IndexError
      else
        (let m1 = v_mean src;
             m2 = v_mean dst;
             P = map (\<lambda>p. v_sub p m1) src;
             Q = map (\<lambda>q. v_sub q m2) dst;
             norm1 = frobenius_norm P;
             norm2 = frobenius_norm Q
         in if norm1 = Fl 0 \<or> norm2 = Fl 0
            then Inl (ValueError ''Input matrices must contain >1 unique points'')
            else
              (case orthogonal_procrustes (map (\<lambda>q. v_div q norm2) Q) (map (\<lambda>p. v_div p norm1) P) of
                 Inl e \<Rightarrow> Inl e
               | Inr (R, s) \<Rightarrow>
                   (let scale = s * norm2 / norm1;
                        t = v_sub m2 (m_vec R (v_scale m1 scale));
                        mean_dist = average_distance (apply_rigid_transform src R t scale) dst
                    in Inr (scale, R, t, mean_dist)))))"


section \<open>Point sets used to state the claims on the scale estimators\<close>

text \<open>A point with finite coordinates, and the point set \<open>k * P\<close>.\<close>

definition pt :: "real \<times> real \<times> real \<Rightarrow> vec3" where
  "pt p = (case p of (x, y, z) \<Rightarrow> (Fl x, Fl y, Fl z))"

definition scaled :: "real \<Rightarrow> (real \<times> real \<times> real) list \<Rightarrow> vec3 list" where
  "scaled k P = map (\<lambda>p. v_scale (pt p) (Fl k)) P"

text \<open>The two arguments that \<open>procrustes_registration\<close> hands to \<open>orthogonal_procrustes\<close>
  are its inputs after \<open>P -= m1; P /= norm1\<close>: centred and of Frobenius norm one.\<close>

definition unit_centred :: "vec3 list \<Rightarrow> vec3 list" where
  "unit_centred X =
     (let m = v_mean X; C = map (\<lambda>p. v_sub p m) X
      in map (\<lambda>p. v_div p (frobenius_norm C)) C)"

text \<open>The same quantities on real coordinates, for the proofs.\<close>

definition dist3 :: "real \<times> real \<times> real \<Rightarrow> real \<times> real \<times> real \<Rightarrow> real" where
  "dist3 a b = (case (a, b) of ((a1, a2, a3), (b1, b2, b3)) \<Rightarrow>
     sqrt ((a1 - b1) * (a1 - b1) + (a2 - b2) * (a2 - b2) + (a3 - b3) * (a3 - b3)))"

definition centroid :: "(real \<times> real \<times> real) list \<Rightarrow> real \<times> real \<times> real" where
  "centroid P = (np_mean (map fst P), np_mean (map (fst \<circ> snd) P), np_mean (map (snd \<circ> snd) P))"

definition rsub :: "real \<times> real \<times> real \<Rightarrow> real \<times> real \<times> real \<Rightarrow> real \<times> real \<times> real" where
  "rsub a b = (fst a - fst b, fst (snd a) - fst (snd b), snd (snd a) - snd (snd b))"

definition sq_norm :: "real \<times> real \<times> real \<Rightarrow> real" where
  "sq_norm a = fst a * fst a + fst (snd a) * fst (snd a) + snd (snd a) * snd (snd a)"

definition centred :: "(real \<times> real \<times> real) list \<Rightarrow> (real \<times> real \<times> real) list" where
  "centred P = map (\<lambda>p. rsub p (centroid P)) P"


section \<open>Example data\<close>

text \<open>Landmark sets of three views that share nine, eight and eight timestamps.\<close>

definition ten_stamps :: "nat view_landmarks" where
  "ten_stamps = \<lparr>lm_landmarks = [], lm_timestamp = [0, 1, 2, 3, 4, 5, 6, 7, 8, 9]\<rparr>"

definition nine_stamps :: "nat view_landmarks" where
  "nine_stamps = \<lparr>lm_landmarks = [], lm_timestamp = [1, 2, 3, 4, 5, 6, 7, 8, 9]\<rparr>"

definition eight_stamps :: "nat view_landmarks" where
  "eight_stamps = \<lparr>lm_landmarks = [], lm_timestamp = [2, 3, 4, 5, 6, 7, 8, 9]\<rparr>"


section \<open>Facts about the graph model\<close>

lemma set_arcs: "set (arcs G) = {(u, v). \<exists>ns. (u, ns) \<in> set (g_adj G) \<and> v \<in> fst ` set ns}"
  by (force simp: arcs_def arcs_data_def)

lemma set_arcs_wf:
  "wf_graph G \<Longrightarrow> set (arcs G) = {(u, v). v \<in> fst ` set (neighbours G u)}"
  unfolding set_arcs neighbours_def wf_graph_def
  by (auto split: option.splits simp: map_of_eq_None_iff image_iff) (metis fst_conv map_of_SomeD weak_map_of_SomeI)+

lemma wf_empty: "wf_graph empty_graph"
  by (simp add: wf_graph_def empty_graph_def)

lemma wf_add_node: "wf_graph G \<Longrightarrow> wf_graph (add_node v G)"
  by (simp add: wf_graph_def add_node_def)

lemma nodes_add_node: "set (g_nodes (add_node v G)) = insert v (set (g_nodes G))"
  by (auto simp: add_node_def)

lemma neighbours_add_node: "wf_graph G \<Longrightarrow> neighbours (add_node v G) u = neighbours G u"
proof (cases "v \<in> set (g_nodes G)")
  case True
  then show ?thesis by (simp add: add_node_def)
next
  case False
  assume "wf_graph G"
  with False have "map_of (g_adj G) v = None"
    by (simp add: wf_graph_def map_of_eq_None_iff flip: set_map)
  with False show ?thesis
    by (auto simp: add_node_def neighbours_def map_add_def split: option.splits)
qed

lemma arcs_add_node: "wf_graph G \<Longrightarrow> set (arcs (add_node v G)) = set (arcs G)"
  by (simp add: set_arcs_wf wf_add_node neighbours_add_node)

lemma wf_set_arc: "wf_graph G \<Longrightarrow> u \<in> set (g_nodes G) \<Longrightarrow> wf_graph (set_arc u v d G)"
  by (auto simp: wf_graph_def set_arc_def update_keys)

lemma nodes_set_arc: "g_nodes (set_arc u v d G) = g_nodes G"
  by (simp add: set_arc_def)

lemma neighbours_set_arc:
  "neighbours (set_arc u v d G) w =
     (if w = u then AList.update v d (neighbours G u) else neighbours G w)"
  by (simp add: set_arc_def neighbours_def update_conv')

lemma dom_neighbours_set_arc:
  "fst ` set (neighbours (set_arc u v d G) w) =
     (if w = u then insert v (fst ` set (neighbours G u)) else fst ` set (neighbours G w))"
  by (simp add: neighbours_set_arc dom_update)

lemma arcs_set_arc:
  assumes wf: "wf_graph G" and u: "u \<in> set (g_nodes G)"
  shows "set (arcs (set_arc u v d G)) = insert (u, v) (set (arcs G))"
proof -
  have "set (arcs (set_arc u v d G)) = {(a, b). b \<in> fst ` set (neighbours (set_arc u v d G) a)}"
    using wf u by (simp add: set_arcs_wf wf_set_arc)
  also have "\<dots> = insert (u, v) {(a, b). b \<in> fst ` set (neighbours G a)}"
    unfolding dom_neighbours_set_arc by (auto split: if_splits simp: rev_image_eqI)
  finally show ?thesis using wf by (simp add: set_arcs_wf)
qed

lemma di_add_edge_props:
  assumes "wf_graph G"
  shows "wf_graph (di_add_edge u v d G)"
    and "set (g_nodes (di_add_edge u v d G)) = insert u (insert v (set (g_nodes G)))"
    and "set (arcs (di_add_edge u v d G)) = insert (u, v) (set (arcs G))"
  using assms
  by (auto simp: di_add_edge_def wf_set_arc wf_add_node nodes_add_node nodes_set_arc arcs_set_arc arcs_add_node)

lemma add_edge_props:
  assumes "wf_graph G"
  shows "wf_graph (add_edge u v d G)"
    and "set (g_nodes (add_edge u v d G)) = insert u (insert v (set (g_nodes G)))"
    and "set (arcs (add_edge u v d G)) = insert (u, v) (insert (v, u) (set (arcs G)))"
  using assms
  by (auto simp: add_edge_def wf_set_arc wf_add_node nodes_add_node nodes_set_arc arcs_set_arc arcs_add_node)

lemma fold_di_add_edge:
  assumes "wf_graph G"
  shows "wf_graph (fold (\<lambda>(a, b) G. di_add_edge a b d G) es G)
       \<and> set (g_nodes (fold (\<lambda>(a, b) G. di_add_edge a b d G) es G)) = set (g_nodes G) \<union> nodes_of es
       \<and> set (arcs (fold (\<lambda>(a, b) G. di_add_edge a b d G) es G)) = set (arcs G) \<union> set es"
  using assms
proof (induction es arbitrary: G)
  case Nil
  then show ?case by (simp add: nodes_of_def)
next
  case (Cons e es)
  obtain a b where e: "e = (a, b)" by (cases e)
  have wf: "wf_graph (di_add_edge a b d G)" using Cons.prems by (rule di_add_edge_props)
  show ?case
    using Cons.IH [OF wf] di_add_edge_props(2,3) [OF Cons.prems, of a b d]
    by (auto simp: e nodes_of_def)
qed

lemma fold_add_node:
  "wf_graph G \<Longrightarrow> wf_graph (fold add_node vs G)
     \<and> set (g_nodes (fold add_node vs G)) = set (g_nodes G) \<union> set vs
     \<and> set (arcs (fold add_node vs G)) = set (arcs G)"
proof (induction vs arbitrary: G)
  case Nil
  then show ?case by simp
next
  case (Cons v vs)
  show ?case
    using Cons.IH [OF wf_add_node [OF Cons.prems, of v]] Cons.prems
    by (auto simp: nodes_add_node arcs_add_node)
qed

lemma fold_add_edge:
  assumes "wf_graph H"
  shows "wf_graph (fold (\<lambda>(u, v, d) H. add_edge u v d H) es H)
       \<and> set (g_nodes (fold (\<lambda>(u, v, d) H. add_edge u v d H) es H))
           = set (g_nodes H) \<union> (\<lambda>(u, v, d). u) ` set es \<union> (\<lambda>(u, v, d). v) ` set es
       \<and> set (arcs (fold (\<lambda>(u, v, d) H. add_edge u v d H) es H))
           = set (arcs H) \<union> (\<lambda>(u, v, d). (u, v)) ` set es \<union> (\<lambda>(u, v, d). (v, u)) ` set es"
  using assms
proof (induction es arbitrary: H)
  case Nil
  then show ?case by simp
next
  case (Cons e es)
  obtain u v d where e: "e = (u, v, d)" by (cases e)
  have wf: "wf_graph (add_edge u v d H)" using Cons.prems by (rule add_edge_props)
  show ?case
    using Cons.IH [OF wf] add_edge_props(2,3) [OF Cons.prems, of u v d]
    by (auto simp: e)
qed

lemma arcs_empty: "set (arcs empty_graph) = {}" "set (g_nodes empty_graph) = {}"
  by (simp_all add: empty_graph_def arcs_def arcs_data_def)

lemma to_undirected_props:
  assumes "wf_graph G" and "fst ` set (arcs G) \<union> snd ` set (arcs G) \<subseteq> set (g_nodes G)"
  shows "set (g_nodes (to_undirected G)) = set (g_nodes G)"
    and "set (arcs (to_undirected G)) = set (arcs G) \<union> (set (arcs G))\<inverse>"
proof -
  let ?H = "fold add_node (g_nodes G) (empty_graph :: ('a, 'b) graph)"
  have wf0: "wf_graph ?H"
    and n0: "set (g_nodes ?H) = set (g_nodes G)"
    and a0: "set (arcs ?H) = {}"
    using fold_add_node [where G = "empty_graph :: ('a, 'b) graph" and vs = "g_nodes G"]
    by (simp_all add: arcs_empty wf_empty)
  have 1: "(\<lambda>(u, v, d). u) ` set (arcs_data G) = fst ` set (arcs G)"
    and 2: "(\<lambda>(u, v, d). v) ` set (arcs_data G) = snd ` set (arcs G)"
    and 3: "(\<lambda>(u, v, d). (u, v)) ` set (arcs_data G) = set (arcs G)"
    and 4: "(\<lambda>(u, v, d). (v, u)) ` set (arcs_data G) = (set (arcs G))\<inverse>"
    by (force simp: arcs_def)+
  from fold_add_edge [OF wf0, of "arcs_data G"] assms(2)
  show "set (g_nodes (to_undirected G)) = set (g_nodes G)"
    unfolding to_undirected_def n0 1 2 by auto
  from fold_add_edge [OF wf0, of "arcs_data G"]
  show "set (arcs (to_undirected G)) = set (arcs G) \<union> (set (arcs G))\<inverse>"
    unfolding to_undirected_def a0 3 4 by auto
qed

lemma components_one_D:
  assumes "number_connected_components H = 1"
  shows "set (g_nodes H) \<noteq> {}"
    and "\<And>u v. u \<in> set (g_nodes H) \<Longrightarrow> v \<in> set (g_nodes H) \<Longrightarrow> u = v \<or> (u, v) \<in> (set (arcs H))\<^sup>+"
proof -
  from assms have "card (node_component H ` set (g_nodes H)) = 1"
    by (simp only: number_connected_components_def)
  then obtain C where C: "node_component H ` set (g_nodes H) = {C}"
    by (rule card_1_singletonE)
  show "set (g_nodes H) \<noteq> {}"
  proof
    assume "set (g_nodes H) = {}"
    then have "node_component H ` set (g_nodes H) = {}" by (simp only: image_empty)
    with C show False by simp
  qed
  fix u v assume u: "u \<in> set (g_nodes H)" and v: "v \<in> set (g_nodes H)"
  from u have "node_component H u \<in> node_component H ` set (g_nodes H)" by (rule imageI)
  then have cu: "node_component H u = C" unfolding C by simp
  from v have "node_component H v \<in> node_component H ` set (g_nodes H)" by (rule imageI)
  then have cv: "node_component H v = C" unfolding C by simp
  from v have "v \<in> node_component H v" by (simp add: node_component_def)
  then have "v \<in> node_component H u" unfolding cu cv .
  then have "v = u \<or> (u, v) \<in> (set (arcs H))\<^sup>+" by (simp add: node_component_def)
  then show "u = v \<or> (u, v) \<in> (set (arcs H))\<^sup>+" by blast
qed

lemma components_one_I:
  assumes w: "w \<in> set (g_nodes H)"
    and R: "\<And>u v. u \<in> set (g_nodes H) \<Longrightarrow> v \<in> set (g_nodes H) \<Longrightarrow> u = v \<or> (u, v) \<in> (set (arcs H))\<^sup>+"
  shows "number_connected_components H = 1"
proof -
  have all: "node_component H u = set (g_nodes H)" if u: "u \<in> set (g_nodes H)" for u
  proof (rule equalityI; rule subsetI)
    fix x assume "x \<in> node_component H u"
    then show "x \<in> set (g_nodes H)" by (simp add: node_component_def)
  next
    fix x assume x: "x \<in> set (g_nodes H)"
    from R [OF u x] have "x = u \<or> (u, x) \<in> (set (arcs H))\<^sup>+" by blast
    with x show "x \<in> node_component H u" by (simp add: node_component_def)
  qed
  have "node_component H ` set (g_nodes H) = {set (g_nodes H)}"
  proof (rule equalityI; rule subsetI)
    fix X assume "X \<in> node_component H ` set (g_nodes H)"
    then obtain u where "u \<in> set (g_nodes H)" "X = node_component H u" by (rule imageE)
    then show "X \<in> {set (g_nodes H)}" by (simp add: all)
  next
    fix X assume "X \<in> {set (g_nodes H)}"
    then have "X = set (g_nodes H)" by (rule singletonD)
    then have "X = node_component H w" unfolding all [OF w] .
    then show "X \<in> node_component H ` set (g_nodes H)" using w by (rule image_eqI)
  qed
  then have "card (node_component H ` set (g_nodes H)) = 1" by simp
  then show ?thesis by (simp only: number_connected_components_def)
qed

lemma components_one:
  "number_connected_components H = 1 \<longleftrightarrow>
     set (g_nodes H) \<noteq> {} \<and>
     (\<forall>u \<in> set (g_nodes H). \<forall>v \<in> set (g_nodes H). u = v \<or> (u, v) \<in> (set (arcs H))\<^sup>+)"
proof
  assume "number_connected_components H = 1"
  from components_one_D [OF this] show "set (g_nodes H) \<noteq> {} \<and>
     (\<forall>u \<in> set (g_nodes H). \<forall>v \<in> set (g_nodes H). u = v \<or> (u, v) \<in> (set (arcs H))\<^sup>+)"
    by blast
next
  assume R: "set (g_nodes H) \<noteq> {} \<and>
     (\<forall>u \<in> set (g_nodes H). \<forall>v \<in> set (g_nodes H). u = v \<or> (u, v) \<in> (set (arcs H))\<^sup>+)"
  then have "\<exists>w. w \<in> set (g_nodes H)" by (simp only: ex_in_conv) simp
  then obtain w where w: "w \<in> set (g_nodes H)" ..
  from R show "number_connected_components H = 1"
    by (intro components_one_I [OF w]) blast
qed

lemma view_digraph_props:
  "wf_graph (view_digraph es)"
  "set (g_nodes (view_digraph es)) = nodes_of es"
  "set (arcs (view_digraph es)) = set es"
  using fold_di_add_edge [OF wf_empty, where es = es and d = "()"]
  by (simp_all add: view_digraph_def arcs_empty)

lemma verify_view_tree_iff:
  "verify_view_tree t \<longleftrightarrow> \<not> directed_cycle t \<and> t \<noteq> [] \<and> weakly_connected t"
proof -
  let ?G = "view_digraph t"
  have sub: "fst ` set (arcs ?G) \<union> snd ` set (arcs ?G) \<subseteq> set (g_nodes ?G)"
    by (simp add: view_digraph_props nodes_of_def)
  have nd: "set (g_nodes (to_undirected ?G)) = nodes_of t"
    and ar: "set (arcs (to_undirected ?G)) = set t \<union> (set t)\<inverse>"
    using to_undirected_props [OF view_digraph_props(1) sub]
    by (simp_all add: view_digraph_props)
  have ne: "nodes_of t \<noteq> {} \<longleftrightarrow> t \<noteq> []"
    by (cases t) (auto simp: nodes_of_def)
  have "verify_view_tree t \<longleftrightarrow> \<not> has_cycle ?G \<and> number_connected_components (to_undirected ?G) = 1"
    by (simp add: verify_view_tree_def view_digraph_def Let_def)
  then show ?thesis
    unfolding components_one nd ar ne has_cycle_def view_digraph_props
    by (simp add: directed_cycle_def weakly_connected_def)
qed

lemma arborescence_no_cycle:
  assumes "spanning_arborescence views v0 t"
  shows "\<not> directed_cycle t"
proof
  assume "directed_cycle t"
  then obtain v where v: "v \<in> nodes_of t" and cyc: "(v, v) \<in> (set t)\<^sup>+"
    by (auto simp: directed_cycle_def)
  let ?C = "{u. (u, u) \<in> (set t)\<^sup>+}"
  have uniq: "\<And>a b c. (a, b) \<in> set t \<Longrightarrow> (c, b) \<in> set t \<Longrightarrow> a = c"
    using assms unfolding spanning_arborescence_def by fastforce
  have no_in: "\<And>a. (a, v0) \<notin> set t"
    using assms unfolding spanning_arborescence_def by fastforce
  have pred_in: "a \<in> ?C" if ab: "(a, b) \<in> set t" and b: "b \<in> ?C" for a b
  proof -
    from b have "(b, b) \<in> (set t)\<^sup>+" by simp
    then obtain c where bc: "(b, c) \<in> (set t)\<^sup>*" and cb: "(c, b) \<in> set t"
      by (meson tranclD2)
    from uniq [OF ab cb] have "c = a" by simp
    with bc ab have "(a, a) \<in> (set t)\<^sup>+" by (meson rtrancl_into_trancl2)
    then show ?thesis by simp
  qed
  have pred_star_in: "a \<in> ?C" if "(a, b) \<in> (set t)\<^sup>*" and "b \<in> ?C" for a b
    using that
  proof (induction rule: converse_rtrancl_induct)
    case base
    then show ?case .
  next
    case (step y z)
    then have "z \<in> ?C" by simp
    with step.hyps(1) show ?case by (rule pred_in)
  qed
  have "v \<in> set views" using v assms unfolding spanning_arborescence_def by auto
  then have "(v0, v) \<in> (set t)\<^sup>*"
    using assms unfolding spanning_arborescence_def by (auto intro: trancl_into_rtrancl)
  with cyc have "v0 \<in> ?C" by (intro pred_star_in [of v0 v]) simp_all
  then obtain c where "(c, v0) \<in> set t" by (auto dest: tranclD2)
  with no_in show False by simp
qed

lemma arborescence_connected:
  assumes "spanning_arborescence views v0 t"
  shows "weakly_connected t"
proof -
  let ?S = "set t \<union> (set t)\<inverse>"
  have reach: "(v0, v) \<in> ?S\<^sup>*" if "v \<in> nodes_of t" for v
  proof -
    from that assms have "v = v0 \<or> (v0, v) \<in> (set t)\<^sup>+"
      unfolding spanning_arborescence_def by blast
    then have "(v0, v) \<in> (set t)\<^sup>*" by (auto intro: trancl_into_rtrancl)
    then show ?thesis by (rule rtrancl_mono [THEN subsetD, rotated]) simp
  qed
  have sym: "sym ?S" by (auto simp: sym_def)
  have "(u, v) \<in> ?S\<^sup>*" if "u \<in> nodes_of t" "v \<in> nodes_of t" for u v
  proof -
    from reach that have "(v0, u) \<in> ?S\<^sup>*" "(v0, v) \<in> ?S\<^sup>*" by simp_all
    moreover from sym have "sym (?S\<^sup>*)" by (rule sym_rtrancl)
    ultimately have "(u, v0) \<in> ?S\<^sup>*" "(v0, v) \<in> ?S\<^sup>*" by (blast dest: symD)+
    then show ?thesis by (rule rtrancl_trans)
  qed
  then have "u = v \<or> (u, v) \<in> ?S\<^sup>+" if "u \<in> nodes_of t" "v \<in> nodes_of t" for u v
    using that by (blast dest: rtranclD)
  then show ?thesis
    unfolding weakly_connected_def by blast
qed


section \<open>The edges of the view graph\<close>

lemma edge_data_add_node: "wf_graph G \<Longrightarrow> edge_data (add_node w G) u v = edge_data G u v"
  by (simp add: edge_data_def neighbours_add_node)

lemma edge_data_set_arc:
  "edge_data (set_arc a b d G) u v = (if u = a \<and> v = b then Some d else edge_data G u v)"
  by (simp add: edge_data_def neighbours_set_arc update_conv')

lemma edge_data_add_nodes:
  assumes wf: "wf_graph G"
  shows "edge_data (add_node b (add_node a G)) u v = edge_data G u v"
  by (simp only: edge_data_add_node [OF wf_add_node [OF wf]] edge_data_add_node [OF wf])

lemma edge_data_add_edge_raw:
  "edge_data (add_edge a b d G) u v =
     (if u = b \<and> v = a then Some d else if u = a \<and> v = b then Some d
      else edge_data (add_node b (add_node a G)) u v)"
  unfolding add_edge_def edge_data_set_arc ..

lemma if_merge: "(if P then S else if Q then S else X) = (if Q \<or> P then S else X)"
  by simp

lemma edge_data_add_edge:
  assumes wf: "wf_graph G"
  shows "edge_data (add_edge a b d G) u v =
     (if (u = a \<and> v = b) \<or> (u = b \<and> v = a) then Some d else edge_data G u v)"
  unfolding edge_data_add_edge_raw edge_data_add_nodes [OF wf] by (rule if_merge)

lemma shared_count_sym: "shared_count landmarks u v = shared_count landmarks v u"
  by (auto simp: shared_count_def Int_commute split: option.splits)

lemma add_view_edges_result:
  assumes "wf_graph G" and "fst ` set ps \<union> snd ` set ps \<subseteq> dom landmarks"
  shows "\<exists>G'. add_view_edges landmarks ps G = Inr G' \<and> wf_graph G'
           \<and> set (g_nodes G') = set (g_nodes G) \<union>
                {w. \<exists>(a, b) \<in> set ps. (w = a \<or> w = b) \<and> shared_count landmarks a b > 8}
           \<and> (\<forall>u v. edge_data G' u v =
                 (if ((u, v) \<in> set ps \<or> (v, u) \<in> set ps) \<and> shared_count landmarks u v > 8
                  then Some (shared_count landmarks u v) else edge_data G u v))"
  using assms
proof (induction ps arbitrary: G)
  case Nil
  then show ?case by simp
next
  case (Cons p ps)
  obtain a b where p: "p = (a, b)" by (cases p)
  from Cons.prems(2) obtain l1 l2 where l: "landmarks a = Some l1" "landmarks b = Some l2"
    by (auto simp: p)
  let ?n = "card (set (lm_timestamp l1) \<inter> set (lm_timestamp l2))"
  have n: "shared_count landmarks a b = ?n" "shared_count landmarks b a = ?n"
    by (simp_all add: shared_count_def l Int_commute)
  let ?G = "if ?n > 8 then add_edge a b ?n G else G"
  have wf: "wf_graph ?G" using Cons.prems(1) by (simp add: add_edge_props)
  have sub: "fst ` set ps \<union> snd ` set ps \<subseteq> dom landmarks" using Cons.prems(2) by auto
  have step: "add_view_edges landmarks (p # ps) G = add_view_edges landmarks ps ?G"
    by (simp add: p l Let_def)
  from Cons.IH [OF wf sub] obtain G' where G': "add_view_edges landmarks ps ?G = Inr G'"
    and wf': "wf_graph G'"
    and nd: "set (g_nodes G') = set (g_nodes ?G) \<union>
                {w. \<exists>(a, b) \<in> set ps. (w = a \<or> w = b) \<and> shared_count landmarks a b > 8}"
    and ed: "\<And>u v. edge_data G' u v =
                 (if ((u, v) \<in> set ps \<or> (v, u) \<in> set ps) \<and> shared_count landmarks u v > 8
                  then Some (shared_count landmarks u v) else edge_data ?G u v)"
    by blast
  have nd': "set (g_nodes G') = set (g_nodes G) \<union>
                {w. \<exists>(a, b) \<in> set (p # ps). (w = a \<or> w = b) \<and> shared_count landmarks a b > 8}"
    unfolding nd using Cons.prems(1) by (auto simp: p n add_edge_props)
  have ed': "edge_data G' u v =
                 (if ((u, v) \<in> set (p # ps) \<or> (v, u) \<in> set (p # ps)) \<and> shared_count landmarks u v > 8
                  then Some (shared_count landmarks u v) else edge_data G u v)" for u v
    unfolding ed using Cons.prems(1) by (auto simp: p n edge_data_add_edge)
  from G' wf' nd' ed' show ?case unfolding step by blast
qed

lemma combinations2_set:
  "u \<in> set xs \<Longrightarrow> v \<in> set xs \<Longrightarrow> u \<noteq> v \<Longrightarrow>
     (u, v) \<in> set (combinations2 xs) \<or> (v, u) \<in> set (combinations2 xs)"
  by (induction xs) auto

lemma combinations2_subset:
  "(u, v) \<in> set (combinations2 xs) \<Longrightarrow> u \<in> set xs \<and> v \<in> set xs"
  by (induction xs) auto

lemma edge_data_empty: "edge_data empty_graph u v = None"
  by (simp add: edge_data_def neighbours_def empty_graph_def)

lemma edge_data_fold_add_node:
  "wf_graph G \<Longrightarrow> edge_data (fold add_node vs G) u v = edge_data G u v"
  by (induction vs arbitrary: G) (simp_all add: wf_add_node edge_data_add_node)


section \<open>Facts about the scale estimators\<close>

lemma combinations2_Nil_iff: "combinations2 xs = [] \<longleftrightarrow> length xs \<le> 1"
  by (induction xs) (auto simp: Suc_le_eq)

lemma diff_single_add_mset: "z \<in># M \<Longrightarrow> add_mset x M - {#z#} = add_mset x (M - {#z#})"
  by simp

lemma sum_mset_add_mset:
  "(\<Sum>z \<in># M. add_mset (g z) (h z)) = image_mset g M + (\<Sum>z \<in># M. h z)"
  by (induction M) simp_all

lemma mset_double_cancel:
  fixes A B :: "'a multiset"
  assumes "A + A = B + B"
  shows "A = B"
proof (rule multiset_eqI)
  fix x
  from assms have "count (A + A) x = count (B + B) x" by simp
  then show "count A x = count B x" by simp
qed

lemma combinations2_double:
  assumes sym: "\<And>a b. f (a, b) = f (b, a)"
  shows "mset (map f (combinations2 xs)) + mset (map f (combinations2 xs))
         = (\<Sum>x \<in># mset xs. image_mset (\<lambda>y. f (x, y)) (mset xs - {#x#}))"
proof (induction xs)
  case Nil
  then show ?case by simp
next
  case (Cons x xs)
  let ?M = "mset xs"
  have "(\<Sum>z \<in># ?M. image_mset (\<lambda>y. f (z, y)) (add_mset x ?M - {#z#}))
        = (\<Sum>z \<in># ?M. add_mset (f (z, x)) (image_mset (\<lambda>y. f (z, y)) (?M - {#z#})))"
    by (rule arg_cong [where f = sum_mset], rule image_mset_cong) simp
  also have "\<dots> = image_mset (\<lambda>z. f (z, x)) ?M + (\<Sum>z \<in># ?M. image_mset (\<lambda>y. f (z, y)) (?M - {#z#}))"
    by (rule sum_mset_add_mset)
  finally have "(\<Sum>z \<in># mset (x # xs). image_mset (\<lambda>y. f (z, y)) (mset (x # xs) - {#z#}))
      = image_mset (\<lambda>y. f (x, y)) ?M + image_mset (\<lambda>z. f (z, x)) ?M
        + (\<Sum>z \<in># ?M. image_mset (\<lambda>y. f (z, y)) (?M - {#z#}))"
    by simp
  then show ?case
    using Cons.IH sym by (simp add: comp_def)
qed

lemma combinations2_mset_cong:
  assumes sym: "\<And>a b. f (a, b) = f (b, a)" and pq: "mset p = mset q"
  shows "mset (map f (combinations2 p)) = mset (map f (combinations2 q))"
  by (rule mset_double_cancel) (simp only: combinations2_double [of f, OF sym] pq)

lemma map2_map_map: "map2 f (map g xs) (map h xs) = map (\<lambda>x. f (g x) (h x)) xs"
  by (induction xs) simp_all

lemma fl_mult_self_minus: "(a - b) * (a - b) = (b - a) * (b - a)" for a b :: fl
  by (cases a; cases b) (simp_all add: minus_fl_def times_fl_def algebra_simps)

lemma v_norm_sub_commute: "v_norm (v_sub a b) = v_norm (v_sub b a)"
proof -
  obtain a1 a2 a3 b1 b2 b3 where ab: "a = (a1, a2, a3)" "b = (b1, b2, b3)"
    by (metis prod_cases3)
  show ?thesis
    unfolding ab v_norm_def by (simp add: fl_mult_self_minus [of a1] fl_mult_self_minus [of a2] fl_mult_self_minus [of a3])
qed

lemma mset_map_filter:
  "mset xs = mset ys \<Longrightarrow> mset (List.map_filter f xs) = mset (List.map_filter f ys)"
  by (simp add: map_filter_def)

lemma sort_mset_cong: "mset xs = mset ys \<Longrightarrow> sort xs = sort ys" for xs :: "real list"
  by (rule properties_for_sort) simp_all

lemma np_median_cong:
  assumes "mset xs = mset ys"
  shows "np_median xs = np_median ys"
  unfolding np_median_def sort_mset_cong [OF assms] ..

lemma sum_list_mset_cong: "mset xs = mset ys \<Longrightarrow> sum_list xs = sum_list ys" for xs :: "real list"
  using sum_mset_sum_list [of xs] sum_mset_sum_list [of ys] by simp

lemma np_mean_cong:
  assumes "mset xs = mset ys"
  shows "np_mean xs = np_mean ys"
  unfolding np_mean_def sum_list_mset_cong [OF assms] mset_eq_length [OF assms] ..

lemma np_std_cong:
  assumes "mset xs = mset ys"
  shows "np_std xs = np_std ys"
proof -
  from assms have "length xs = length ys" by (rule mset_eq_length)
  then have e: "xs = [] \<longleftrightarrow> ys = []" by auto
  have m: "np_mean xs = np_mean ys" using assms by (rule np_mean_cong)
  have "mset (map (\<lambda>x. \<bar>x - np_mean xs\<bar>\<^sup>2) xs) = mset (map (\<lambda>x. \<bar>x - np_mean xs\<bar>\<^sup>2) ys)"
    using assms by simp
  then have "np_mean (map (\<lambda>x. \<bar>x - np_mean xs\<bar>\<^sup>2) xs) = np_mean (map (\<lambda>x. \<bar>x - np_mean xs\<bar>\<^sup>2) ys)"
    by (rule np_mean_cong)
  then show ?thesis unfolding np_std_def e m by simp
qed

lemma fl_simps [simp]:
  "Fl x + Fl y = Fl (x + y)" "Fl x - Fl y = Fl (x - y)" "Fl x * Fl y = Fl (x * y)"
  "- Fl x = Fl (- x)" "fl_sqrt (Fl x) = Fl (sqrt x)"
  "(0::fl) = Fl 0" "(1::fl) = Fl 1"
  by (simp_all add: plus_fl_def minus_fl_def times_fl_def uminus_fl_def fl_sqrt_def zero_fl_def one_fl_def)

lemma fl_div_simp [simp]: "y \<noteq> 0 \<Longrightarrow> Fl x / Fl y = Fl (x / y)"
  by (simp add: divide_fl_def)

lemma norm_pt: "v_norm (v_sub (pt a) (pt b)) = Fl (dist3 a b)"
  by (cases a; cases b) (simp add: pt_def v_norm_def dist3_def)

lemma norm_scaled_pt:
  assumes "0 \<le> k"
  shows "v_norm (v_sub (v_scale (pt a) (Fl k)) (v_scale (pt b) (Fl k))) = Fl (k * dist3 a b)"
proof -
  obtain a1 a2 a3 b1 b2 b3 where ab: "a = (a1, a2, a3)" "b = (b1, b2, b3)"
    by (metis prod_cases3)
  have "(a1 * k - b1 * k) * (a1 * k - b1 * k) + (a2 * k - b2 * k) * (a2 * k - b2 * k)
        + (a3 * k - b3 * k) * (a3 * k - b3 * k)
      = k\<^sup>2 * ((a1 - b1) * (a1 - b1) + (a2 - b2) * (a2 - b2) + (a3 - b3) * (a3 - b3))"
    by (simp add: algebra_simps power2_eq_square)
  then show ?thesis
    using assms by (simp add: ab pt_def v_norm_def dist3_def real_sqrt_mult)
qed

lemma dist3_eq_0: "dist3 a b = 0 \<longleftrightarrow> a = b"
proof -
  obtain a1 a2 a3 b1 b2 b3 where ab: "a = (a1, a2, a3)" "b = (b1, b2, b3)"
    by (metis prod_cases3)
  have "(a1 - b1) * (a1 - b1) + (a2 - b2) * (a2 - b2) + (a3 - b3) * (a3 - b3) = 0
        \<longleftrightarrow> a1 = b1 \<and> a2 = b2 \<and> a3 = b3"
    using sum_power2_eq_zero_iff [of "a1 - b1" "a2 - b2"]
      sum_power2_eq_zero_iff [of "sqrt ((a1 - b1)\<^sup>2 + (a2 - b2)\<^sup>2)" "a3 - b3"]
    by (auto simp: power2_eq_square)
  then show ?thesis by (simp add: ab dist3_def)
qed

lemma set_map_filter_id: "set (List.map_filter id xs) = {y. Some y \<in> set xs}"
  by (induction xs) (auto simp: map_filter_def)

lemma constant_list: "set xs \<subseteq> {k} \<Longrightarrow> xs = replicate (length xs) k"
  by (induction xs) auto

lemma np_median_replicate: "0 < n \<Longrightarrow> np_median (replicate n k) = Fl k"
proof -
  assume n: "0 < n"
  have s: "sort (replicate n k) = replicate n k"
    by (rule properties_for_sort) (simp_all add: sorted_replicate)
  have "n div 2 < n" "n div 2 - 1 < n" using n by simp_all
  then show ?thesis using n by (simp add: np_median_def s Let_def)
qed

lemma np_std_replicate: "0 < n \<Longrightarrow> np_std (replicate n k) = Fl 0"
proof -
  assume n: "0 < n"
  then have m: "np_mean (replicate n k) = k" by (simp add: np_mean_def sum_list_replicate)
  have "map (\<lambda>x. \<bar>x - k\<bar>\<^sup>2) (replicate n k) = replicate n 0" by simp
  then have "np_mean (map (\<lambda>x. \<bar>x - k\<bar>\<^sup>2) (replicate n k)) = 0"
    by (simp add: np_mean_def sum_list_replicate)
  with n show ?thesis by (simp add: np_std_def m)
qed

lemma scale_ratio_scaled:
  "scale_ratio (Fl (k * d)) (Fl d) = (if d = 0 then None else Some k)"
  by (simp add: scale_ratio_def)

lemma estimate_scale_scaled_ratios:
  assumes idx: "mset idxs = mset [0..<length P]" and k: "0 < k"
    and two: "i < length P" "j < length P" "P ! i \<noteq> P ! j"
  shows "\<exists>n > 0. (estimate_scale_point_sets idxs (map pt P) (scaled k P) max_est :: 'v error + (fl \<times> fl))
           = Inr (np_median (filter (\<lambda>r. r < max_est) (replicate n k)),
                  np_std (filter (\<lambda>r. r < max_est) (replicate n k)))"
proof -
  from idx have "set idxs = set [0..<length P]" by (rule mset_eq_setD)
  then have st: "set idxs = {0..<length P}" by simp
  let ?ps = "combinations2 idxs"
  have ij: "i \<in> set idxs" "j \<in> set idxs" "i \<noteq> j" using two st by auto
  from combinations2_set [OF ij] have ex: "(i, j) \<in> set ?ps \<or> (j, i) \<in> set ?ps" .
  then have ne: "?ps \<noteq> []" by auto
  have inr: "\<not> (\<exists>i \<in> set idxs. length (map pt P) \<le> i \<or> length (scaled k P) \<le> i)"
    using st by (auto simp: scaled_def)
  have rng: "a < length P \<and> b < length P" if "(a, b) \<in> set ?ps" for a b
    using combinations2_subset [OF that] st by auto
  let ?r = "\<lambda>x. scale_ratio (v_norm (v_sub (scaled k P ! fst x) (scaled k P ! snd x)))
                         (v_norm (v_sub (map pt P ! fst x) (map pt P ! snd x)))"
  have r: "?r x = (if P ! fst x = P ! snd x then None else Some k)" if "x \<in> set ?ps" for x
  proof -
    from rng [of "fst x" "snd x"] that have "fst x < length P" "snd x < length P" by simp_all
    then show ?thesis
      using k by (simp add: scaled_def norm_pt norm_scaled_pt scale_ratio_scaled dist3_eq_0)
  qed
  let ?clean = "List.map_filter id (map ?r ?ps)"
  have "y = k" if "Some y \<in> set (map ?r ?ps)" for y
  proof -
    from that obtain x where x: "x \<in> set ?ps" and y: "?r x = Some y"
      unfolding set_map by (elim imageE) simp
    from r [OF x] y have "(if P ! fst x = P ! snd x then None else Some k) = Some y" by simp
    then show ?thesis by (simp split: if_splits)
  qed
  then have "set ?clean \<subseteq> {k}"
    unfolding set_map_filter_id by blast
  then have rep: "?clean = replicate (length ?clean) k" by (rule constant_list)
  have "Some k \<in> set (map ?r ?ps)"
  proof -
    from ex obtain x where x: "x \<in> set ?ps" "P ! fst x \<noteq> P ! snd x"
      using two(3) by force
    with r [OF x(1)] have "Some k = ?r x" by simp
    with x(1) show ?thesis unfolding set_map by (rule rev_image_eqI)
  qed
  then have "k \<in> set ?clean" unfolding set_map_filter_id by simp
  then have pos: "0 < length ?clean" by (cases ?clean) auto
  have "(estimate_scale_point_sets idxs (map pt P) (scaled k P) max_est :: 'v error + (fl \<times> fl))
           = Inr (np_median (filter (\<lambda>r. r < max_est) ?clean),
                  np_std (filter (\<lambda>r. r < max_est) ?clean))"
    unfolding estimate_scale_point_sets_def Let_def map2_map_map case_prod_beta
    using ne inr by simp
  then have "(estimate_scale_point_sets idxs (map pt P) (scaled k P) max_est :: 'v error + (fl \<times> fl))
           = Inr (np_median (filter (\<lambda>r. r < max_est) (replicate (length ?clean) k)),
                  np_std (filter (\<lambda>r. r < max_est) (replicate (length ?clean) k)))"
    using rep by simp
  with pos show ?thesis by blast
qed

lemma estimate_scale_recovers_k:
  assumes "mset idxs = mset [0..<length P]" and "0 < k" and "k < max_est"
    and "\<exists>i < length P. \<exists>j < length P. P ! i \<noteq> P ! j"
  shows "(estimate_scale_point_sets idxs (map pt P) (scaled k P) max_est :: 'v error + (fl \<times> fl))
           = Inr (Fl k, Fl 0)"
proof -
  from assms(4) obtain i j where "i < length P" "j < length P" "P ! i \<noteq> P ! j" by blast
  from estimate_scale_scaled_ratios [OF assms(1,2) this, of max_est]
  obtain n where n: "0 < n"
    and e: "(estimate_scale_point_sets idxs (map pt P) (scaled k P) max_est :: 'v error + (fl \<times> fl))
           = Inr (np_median (filter (\<lambda>r. r < max_est) (replicate n k)),
                  np_std (filter (\<lambda>r. r < max_est) (replicate n k)))"
    by blast
  show ?thesis unfolding e using assms(3) n by (simp add: np_median_replicate np_std_replicate)
qed

lemma estimate_scale_capped:
  assumes "mset idxs = mset [0..<length P]" and "0 < k" and "max_est \<le> k"
    and "\<exists>i < length P. \<exists>j < length P. P ! i \<noteq> P ! j"
  shows "(estimate_scale_point_sets idxs (map pt P) (scaled k P) max_est :: 'v error + (fl \<times> fl))
           = Inr (NaN, NaN)"
proof -
  from assms(4) obtain i j where "i < length P" "j < length P" "P ! i \<noteq> P ! j" by blast
  from estimate_scale_scaled_ratios [OF assms(1,2) this, of max_est]
  obtain n where n: "0 < n"
    and e: "(estimate_scale_point_sets idxs (map pt P) (scaled k P) max_est :: 'v error + (fl \<times> fl))
           = Inr (np_median (filter (\<lambda>r. r < max_est) (replicate n k)),
                  np_std (filter (\<lambda>r. r < max_est) (replicate n k)))"
    by blast
  show ?thesis unfolding e using assms(3) by (simp add: np_median_def np_std_def)
qed

lemma fl_sum_Fl: "fl_sum (map (\<lambda>x. Fl (f x)) xs) = Fl (sum_list (map f xs))"
  by (induction xs) (simp_all add: fl_sum_def)

lemma fl_mean_Fl:
  "xs \<noteq> [] \<Longrightarrow> fl_mean (map (\<lambda>x. Fl (f x)) xs) = Fl (np_mean (map f xs))"
  by (simp add: fl_mean_def fl_sum_Fl np_mean_def)

lemma fst_pt: "fst (pt p) = Fl (fst p)" "fst (snd (pt p)) = Fl (fst (snd p))"
  "snd (snd (pt p)) = Fl (snd (snd p))"
  by (cases p; simp add: pt_def)+

lemma pt_eq: "pt p = (Fl (fst p), Fl (fst (snd p)), Fl (snd (snd p)))"
  by (cases p) (simp add: pt_def)

lemma v_mean_pt: "P \<noteq> [] \<Longrightarrow> v_mean (map pt P) = pt (centroid P)"
  using fl_mean_Fl [of P fst] fl_mean_Fl [of P "fst \<circ> snd"] fl_mean_Fl [of P "snd \<circ> snd"]
  by (simp add: v_mean_def centroid_def pt_eq comp_def)

lemma np_mean_scale: "np_mean (map (\<lambda>x. f x * k) xs) = np_mean (map f xs) * k"
  by (simp add: np_mean_def sum_list_mult_const)

lemma scaled_eq: "v_scale (pt p) (Fl k) = (Fl (fst p * k), Fl (fst (snd p) * k), Fl (snd (snd p) * k))"
  by (cases p) (simp add: pt_def)

lemma v_mean_scaled: "P \<noteq> [] \<Longrightarrow> v_mean (scaled k P) = v_scale (pt (centroid P)) (Fl k)"
  using fl_mean_Fl [of P "\<lambda>p. fst p * k"] fl_mean_Fl [of P "\<lambda>p. fst (snd p) * k"]
    fl_mean_Fl [of P "\<lambda>p. snd (snd p) * k"]
  by (simp add: v_mean_def scaled_def scaled_eq comp_def centroid_def np_mean_scale)

lemma v_sub_pt: "v_sub (pt a) (pt b) = pt (rsub a b)"
  by (simp add: pt_eq rsub_def)

lemma v_sub_scaled:
  "v_sub (v_scale (pt a) (Fl k)) (v_scale (pt b) (Fl k)) = v_scale (pt (rsub a b)) (Fl k)"
  by (simp add: scaled_eq rsub_def algebra_simps)

lemma v_dot_pt: "v_dot (pt a) (pt a) = Fl (sq_norm a)"
  by (simp add: pt_eq sq_norm_def)

lemma v_dot_scaled: "v_dot (v_scale (pt a) (Fl k)) (v_scale (pt a) (Fl k)) = Fl (k\<^sup>2 * sq_norm a)"
  by (simp add: scaled_eq sq_norm_def algebra_simps power2_eq_square)

lemma frobenius_pt: "frobenius_norm (map pt X) = Fl (sqrt (sum_list (map sq_norm X)))"
  by (simp add: frobenius_norm_def comp_def v_dot_pt fl_sum_Fl)

lemma frobenius_scaled:
  "0 \<le> k \<Longrightarrow> frobenius_norm (scaled k X) = Fl (k * sqrt (sum_list (map sq_norm X)))"
  by (simp add: frobenius_norm_def scaled_def comp_def v_dot_scaled fl_sum_Fl
      sum_list_const_mult real_sqrt_mult)

lemma sq_norm_nonneg: "0 \<le> sq_norm a"
  by (simp add: sq_norm_def)

lemma sq_norm_eq_0: "sq_norm a = 0 \<longleftrightarrow> a = (0, 0, 0)"
proof -
  obtain a1 a2 a3 where a: "a = (a1, a2, a3)" by (metis prod_cases3)
  have "a1 * a1 + a2 * a2 + a3 * a3 = 0 \<longleftrightarrow> a1 = 0 \<and> a2 = 0 \<and> a3 = 0"
    using sum_power2_eq_zero_iff [of a1 a2]
      sum_power2_eq_zero_iff [of "sqrt (a1\<^sup>2 + a2\<^sup>2)" a3]
    by (auto simp: power2_eq_square)
  then show ?thesis by (simp add: a sq_norm_def)
qed

lemma sum_sq_norm_eq_0: "sum_list (map sq_norm X) = 0 \<longleftrightarrow> (\<forall>x \<in> set X. x = (0, 0, 0))"
proof -
  have "sum_list (map sq_norm X) = 0 \<longleftrightarrow> (\<forall>y \<in> set (map sq_norm X). y = 0)"
    by (rule sum_list_nonneg_eq_0_iff) (auto simp: sq_norm_nonneg)
  then show ?thesis by (simp add: sq_norm_eq_0)
qed

lemma rsub_eq_0: "rsub a b = (0, 0, 0) \<longleftrightarrow> a = b"
  by (cases a; cases b) (simp add: rsub_def)

lemma centred_norm_pos:
  assumes "i < length P" "j < length P" "P ! i \<noteq> P ! j"
  shows "0 < sqrt (sum_list (map sq_norm (centred P)))"
proof -
  have "sum_list (map sq_norm (centred P)) \<noteq> 0"
  proof
    assume "sum_list (map sq_norm (centred P)) = 0"
    then have "\<forall>p \<in> set P. p = centroid P"
      unfolding sum_sq_norm_eq_0 centred_def by (simp add: rsub_eq_0)
    with assms(1,2) have "P ! i = centroid P" "P ! j = centroid P" by simp_all
    with assms(3) show False by simp
  qed
  moreover have "0 \<le> sum_list (map sq_norm (centred P))"
    by (rule sum_list_nonneg) (auto simp: sq_norm_nonneg)
  ultimately show ?thesis by simp
qed

lemma v_div_pt: "f \<noteq> 0 \<Longrightarrow> v_div (pt x) (Fl f) = pt (fst x / f, fst (snd x) / f, snd (snd x) / f)"
  by (simp add: pt_eq)

lemma v_div_scaled:
  "0 < k \<Longrightarrow> f \<noteq> 0 \<Longrightarrow> v_div (v_scale (pt x) (Fl k)) (Fl (k * f)) = v_div (pt x) (Fl f)"
  by (simp add: scaled_eq pt_eq)

lemma m_vec_eye_scaled: "m_vec m_eye (v_scale (pt c) (Fl k)) = v_scale (pt c) (Fl k)"
  by (simp add: m_eye_def scaled_eq)

lemma v_sub_self_scaled: "v_sub (v_scale (pt c) (Fl k)) (v_scale (pt c) (Fl k)) = v_zero"
  by (simp add: scaled_eq v_zero_def)

lemma v_add_zero_scaled: "v_add (v_scale (pt c) (Fl k)) v_zero = v_scale (pt c) (Fl k)"
  by (simp add: scaled_eq v_zero_def)

lemma v_norm_zero: "v_norm v_zero = Fl 0"
  by (simp add: v_norm_def v_zero_def)

lemma average_distance_self:
  "P \<noteq> [] \<Longrightarrow> average_distance (scaled k P) (scaled k P) = Fl 0"
proof -
  assume ne: "P \<noteq> []"
  have "map (\<lambda>(x, y). v_norm (v_sub x y)) (zip (scaled k P) (scaled k P)) = map (\<lambda>p. Fl ((\<lambda>_. 0) p)) P"
    by (simp add: scaled_def zip_map_map zip_same_conv_map v_sub_self_scaled v_norm_zero)
  then show ?thesis
    unfolding average_distance_def using fl_mean_Fl [OF ne, of "\<lambda>_. 0"]
    by (simp add: np_mean_def)
qed

lemma procrustes_recovers_k:
  assumes k: "0 < k"
    and two: "\<exists>i < length P. \<exists>j < length P. P ! i \<noteq> P ! j"
    and op: "orthogonal_procrustes (unit_centred (map pt P)) (unit_centred (map pt P)) = Inr (m_eye, Fl 1)"
  shows "procrustes_registration orthogonal_procrustes (map pt P) (scaled k P)
           = Inr (Fl k, m_eye, v_zero, Fl 0)"
proof -
  from two obtain i j where ij: "i < length P" "j < length P" "P ! i \<noteq> P ! j" by blast
  then have ne: "P \<noteq> []" by auto
  let ?c = "centroid P"
  let ?X = "centred P"
  let ?f = "sqrt (sum_list (map sq_norm ?X))"
  have f: "0 < ?f" using ij by (rule centred_norm_pos)
  have m1: "v_mean (map pt P) = pt ?c" using ne by (rule v_mean_pt)
  have m2: "v_mean (scaled k P) = v_scale (pt ?c) (Fl k)" using ne by (rule v_mean_scaled)
  have Pc: "map (\<lambda>p. v_sub p (pt ?c)) (map pt P) = map pt ?X"
    by (simp add: centred_def v_sub_pt)
  have Qc: "map (\<lambda>q. v_sub q (v_scale (pt ?c) (Fl k))) (scaled k P) = scaled k ?X"
    by (simp add: centred_def scaled_def v_sub_scaled)
  have n1: "frobenius_norm (map pt ?X) = Fl ?f" by (rule frobenius_pt)
  have n2: "frobenius_norm (scaled k ?X) = Fl (k * ?f)" using k by (simp add: frobenius_scaled)
  have nz: "\<not> (Fl ?f = Fl 0 \<or> Fl (k * ?f) = Fl 0)" using f k by simp
  have Qn: "map (\<lambda>q. v_div q (Fl (k * ?f))) (scaled k ?X) = map (\<lambda>p. v_div p (Fl ?f)) (map pt ?X)"
    using k f by (simp add: scaled_def v_div_scaled)
  have uc: "unit_centred (map pt P) = map (\<lambda>p. v_div p (Fl ?f)) (map pt ?X)"
    by (simp only: unit_centred_def Let_def m1 Pc n1)
  have sc: "Fl 1 * Fl (k * ?f) / Fl ?f = Fl k" using f by simp
  have len: "length (map pt P) = length (scaled k P)" by (simp add: scaled_def)
  have nem: "map pt P \<noteq> []" using ne by simp
  have app: "apply_rigid_transform (map pt P) m_eye v_zero (Fl k) = scaled k P"
    by (simp add: apply_rigid_transform_def scaled_def m_vec_eye_scaled v_add_zero_scaled)
  show ?thesis
    unfolding procrustes_registration_def Let_def m1 m2 Pc Qc n1 n2 Qn
    using len nem nz op [unfolded uc]
    by (simp add: sc m_vec_eye_scaled v_sub_self_scaled app average_distance_self [OF ne])
qed


section \<open>The verdicts of the view-tree validator\<close>

lemma directed_cycle_iff: "directed_cycle t \<longleftrightarrow> (\<exists>v. (v, v) \<in> (set t)\<^sup>+)"
proof
  assume "directed_cycle t"
  then show "\<exists>v. (v, v) \<in> (set t)\<^sup>+" by (auto simp: directed_cycle_def)
next
  assume "\<exists>v. (v, v) \<in> (set t)\<^sup>+"
  then obtain v where v: "(v, v) \<in> (set t)\<^sup>+" ..
  then obtain w where "(v, w) \<in> set t" by (meson tranclD)
  then have "v \<in> nodes_of t" by (force simp: nodes_of_def)
  with v show "directed_cycle t" unfolding directed_cycle_def by blast
qed

lemma arborescence_accepted:
  "spanning_arborescence views v0 t \<Longrightarrow> t \<noteq> [] \<Longrightarrow> verify_view_tree t"
  by (simp add: verify_view_tree_iff arborescence_no_cycle arborescence_connected)

text \<open>
  C1 (as the code has it). \<open>verify_view_tree\<close> receives the edge list only, never the views
  of the rig. It answers False for every edge list with a directed cycle, False for the
  empty edge list and for every edge list whose own views are not all linked (more than
  one connected component), and True for every other edge list: every non-empty edge
  list without a directed cycle whose views are all linked when the direction of the
  edges is ignored. That includes every orientation of a spanning tree with at least
  one edge.
\<close>

theorem verify_view_tree_verdicts:
  "(directed_cycle t1 \<longrightarrow> \<not> verify_view_tree t1) \<and>
   (t2 = [] \<or> \<not> weakly_connected t2 \<longrightarrow> \<not> verify_view_tree t2) \<and>
   (\<not> directed_cycle t3 \<and> weakly_connected t3 \<and> t3 \<noteq> [] \<longrightarrow> verify_view_tree t3)"
proof (intro conjI impI)
  assume "directed_cycle t1"
  then show "\<not> verify_view_tree t1" by (simp add: verify_view_tree_iff)
next
  assume "t2 = [] \<or> \<not> weakly_connected t2"
  then show "\<not> verify_view_tree t2" by (auto simp: verify_view_tree_iff)
next
  assume "\<not> directed_cycle t3 \<and> weakly_connected t3 \<and> t3 \<noteq> []"
  then show "verify_view_tree t3" by (simp add: verify_view_tree_iff)
qed

theorem verify_view_tree_verdicts_witness:
  "directed_cycle [(0::nat, 1), (1, 0)] \<and> \<not> verify_view_tree [(0::nat, 1), (1, 0)] \<and>
   \<not> weakly_connected [(0::nat, 1), (2, 3)] \<and> \<not> verify_view_tree [(0::nat, 1), (2, 3)] \<and>
   \<not> directed_cycle [(0::nat, 1), (2, 1)] \<and> weakly_connected [(0::nat, 1), (2, 1)] \<and>
   verify_view_tree [(0::nat, 1), (2, 1)]"
proof -
  have c: "directed_cycle [(0::nat, 1), (1, 0)]" by code_simp
  have d: "\<not> weakly_connected [(0::nat, 1), (2, 3)]" by code_simp
  have a: "\<not> directed_cycle [(0::nat, 1), (2, 1)]" by code_simp
  have w: "weakly_connected [(0::nat, 1), (2, 1)]" by code_simp
  have n: "[(0::nat, 1), (2, 1)] \<noteq> []" by simp
  from c d a w n
    verify_view_tree_verdicts [of "[(0::nat, 1), (1, 0)]" "[(0::nat, 1), (2, 3)]"
      "[(0::nat, 1), (2, 1)]"]
  show ?thesis by blast
qed

text \<open>
  C1 (as the claim states it) fails twice. The edge list \<open>[(0, 1)]\<close> spans only two of
  the three views 0, 1, 2 of a rig, and the validator accepts it. The empty edge list is
  the spanning tree of a rig with the single view 0, and the validator rejects it.
\<close>

theorem verify_view_tree_partial_span_counterexample:
  "nodes_of [(0::nat, 1)] \<subset> set [0, 1, 2] \<and> verify_view_tree [(0::nat, 1)] \<and>
   spanning_arborescence [0::nat] 0 [] \<and> \<not> verify_view_tree ([] :: (nat \<times> nat) list)"
  by code_simp

text \<open>
  The cycle detection follows the direction of the edges: the triangle
  \<open>[(0, 1), (0, 2), (1, 2)]\<close>, a cycle only when the direction is ignored, is accepted.
\<close>

lemma verify_view_tree_accepts_triangle: "verify_view_tree [(0::nat, 1), (0, 2), (1, 2)]"
proof -
  let ?t = "[(0::nat, 1), (0, 2), (1, 2)]"
  have tr: "trans {(a::nat, b). a < b}" by (auto simp: trans_def)
  have "set ?t \<subseteq> {(a, b). a < b}" by simp
  then have "(set ?t)\<^sup>+ \<subseteq> {(a, b). a < b}\<^sup>+" by (rule trancl_mono_subset)
  also have "\<dots> = {(a, b). a < b}" using tr by (rule trancl_id)
  finally have a: "\<not> directed_cycle ?t" unfolding directed_cycle_def by blast
  have w: "weakly_connected ?t"
    unfolding weakly_connected_def nodes_of_def by (auto intro: r_into_trancl')
  from a w show ?thesis by (simp add: verify_view_tree_iff)
qed


text \<open>
  C9. When every view has an entry in the landmark store, \<open>build_view_graph\<close> returns a
  graph over exactly the given views in which two different views are joined by an edge
  if and only if they share more than 8 timestamps, and the edge carries that number. The
  result is a function of the two arguments, which the function only reads.
\<close>

theorem build_view_graph_edges:
  assumes "set views \<subseteq> dom landmarks"
  shows "\<exists>G. build_view_graph views landmarks = Inr G \<and> set (g_nodes G) = set views \<and>
           (\<forall>u \<in> set views. \<forall>v \<in> set views. u \<noteq> v \<longrightarrow>
              (\<forall>l1 l2. landmarks u = Some l1 \<and> landmarks v = Some l2 \<longrightarrow>
                 edge_data G u v =
                   (if card (set (lm_timestamp l1) \<inter> set (lm_timestamp l2)) > 8
                    then Some (card (set (lm_timestamp l1) \<inter> set (lm_timestamp l2)))
                    else None)))"
proof -
  let ?G0 = "fold add_node views (empty_graph :: ('a, nat) graph)"
  have wf0: "wf_graph ?G0" and n0: "set (g_nodes ?G0) = set views"
    using fold_add_node [where G = "empty_graph :: ('a, nat) graph" and vs = views]
    by (simp_all add: wf_empty arcs_empty)
  have e0: "edge_data ?G0 u v = None" for u v
    by (simp add: edge_data_fold_add_node wf_empty edge_data_empty)
  have sub: "fst ` set (combinations2 views) \<union> snd ` set (combinations2 views) \<subseteq> dom landmarks"
    using assms combinations2_subset [of _ _ views] by fastforce
  from add_view_edges_result [OF wf0 sub] obtain G
    where G: "add_view_edges landmarks (combinations2 views) ?G0 = Inr G"
      and nd: "set (g_nodes G) = set (g_nodes ?G0) \<union>
                {w. \<exists>(a, b) \<in> set (combinations2 views). (w = a \<or> w = b) \<and> shared_count landmarks a b > 8}"
      and ed: "\<And>u v. edge_data G u v =
                 (if ((u, v) \<in> set (combinations2 views) \<or> (v, u) \<in> set (combinations2 views))
                       \<and> shared_count landmarks u v > 8
                  then Some (shared_count landmarks u v) else edge_data ?G0 u v)"
    by blast
  have nodes: "set (g_nodes G) = set views"
    unfolding nd n0 using combinations2_subset [of _ _ views] by auto
  have edges: "edge_data G u v =
                   (if card (set (lm_timestamp l1) \<inter> set (lm_timestamp l2)) > 8
                    then Some (card (set (lm_timestamp l1) \<inter> set (lm_timestamp l2)))
                    else None)"
    if "u \<in> set views" "v \<in> set views" "u \<noteq> v" "landmarks u = Some l1" "landmarks v = Some l2"
    for u v l1 l2
  proof -
    from that have sc: "shared_count landmarks u v = card (set (lm_timestamp l1) \<inter> set (lm_timestamp l2))"
      by (simp add: shared_count_def)
    from combinations2_set [OF that(1,2,3)]
    have "(u, v) \<in> set (combinations2 views) \<or> (v, u) \<in> set (combinations2 views)" .
    then show ?thesis unfolding ed e0 sc by simp
  qed
  from G nodes edges show ?thesis unfolding build_view_graph_def by blast
qed

theorem build_view_graph_edges_witness:
  "set [0::nat, 1, 2] \<subseteq> dom [0 \<mapsto> ten_stamps, 1 \<mapsto> nine_stamps, 2 \<mapsto> eight_stamps] \<and>
   (\<exists>G. build_view_graph [0::nat, 1, 2] [0 \<mapsto> ten_stamps, 1 \<mapsto> nine_stamps, 2 \<mapsto> eight_stamps] = Inr G
        \<and> edge_data G 0 1 = Some 9 \<and> edge_data G 1 2 = None)"
proof -
  let ?lm = "[0::nat \<mapsto> ten_stamps, 1 \<mapsto> nine_stamps, 2 \<mapsto> eight_stamps]"
  have d: "set [0::nat, 1, 2] \<subseteq> dom ?lm" by simp
  from build_view_graph_edges [OF d] obtain G
    where G: "build_view_graph [0::nat, 1, 2] ?lm = Inr G"
      and e: "\<And>u v l1 l2. u \<in> set [0::nat, 1, 2] \<Longrightarrow> v \<in> set [0::nat, 1, 2] \<Longrightarrow> u \<noteq> v \<Longrightarrow>
                 ?lm u = Some l1 \<Longrightarrow> ?lm v = Some l2 \<Longrightarrow>
                 edge_data G u v =
                   (if card (set (lm_timestamp l1) \<inter> set (lm_timestamp l2)) > 8
                    then Some (card (set (lm_timestamp l1) \<inter> set (lm_timestamp l2)))
                    else None)"
    by blast
  have c1: "card (set (lm_timestamp ten_stamps) \<inter> set (lm_timestamp nine_stamps)) = 9"
    by (simp add: ten_stamps_def nine_stamps_def)
  have c2: "card (set (lm_timestamp nine_stamps) \<inter> set (lm_timestamp eight_stamps)) = 8"
    by (simp add: eight_stamps_def nine_stamps_def)
  have "edge_data G 0 1 = Some 9"
    using e [of 0 1 ten_stamps nine_stamps] by (simp add: c1)
  moreover have "edge_data G 1 2 = None"
    using e [of 1 2 nine_stamps eight_stamps] by (simp add: c2)
  ultimately show ?thesis using d G by blast
qed


section \<open>The scale estimators\<close>

text \<open>
  C10. Whatever permutation of the indices the shuffle produces, the multiset of the
  pairwise distance ratios is the same, and so are the returned median and standard
  deviation (with exact arithmetic): two runs of \<open>estimate_scale_point_sets\<close> on equal
  inputs return equal results, and raise under the same conditions.
\<close>

theorem estimate_scale_shuffle_invariant:
  assumes p: "mset p = mset [0..<length src]" and q: "mset q = mset [0..<length src]"
  shows "(estimate_scale_point_sets p src dst max_est :: 'v error + (fl \<times> fl))
       = estimate_scale_point_sets q src dst max_est"
proof -
  from p q have pq: "mset p = mset q" by simp
  then have len: "length p = length q" and st: "set p = set q"
    by (auto dest: mset_eq_length mset_eq_setD)
  let ?r = "\<lambda>x. scale_ratio (v_norm (v_sub (dst ! fst x) (dst ! snd x))) (v_norm (v_sub (src ! fst x) (src ! snd x)))"
  have sym: "?r (a, b) = ?r (b, a)" for a b
    by (simp add: v_norm_sub_commute [of "dst ! a"] v_norm_sub_commute [of "src ! a"])
  have "mset (map ?r (combinations2 p)) = mset (map ?r (combinations2 q))"
    using sym pq by (rule combinations2_mset_cong)
  then have "mset (List.map_filter id (map ?r (combinations2 p)))
           = mset (List.map_filter id (map ?r (combinations2 q)))"
    by (rule mset_map_filter)
  then have "filter_mset (\<lambda>r. r < max_est) (mset (List.map_filter id (map ?r (combinations2 p))))
           = filter_mset (\<lambda>r. r < max_est) (mset (List.map_filter id (map ?r (combinations2 q))))"
    by (rule arg_cong)
  then have "mset (filter (\<lambda>r. r < max_est) (List.map_filter id (map ?r (combinations2 p))))
           = mset (filter (\<lambda>r. r < max_est) (List.map_filter id (map ?r (combinations2 q))))"
    by (simp only: mset_filter)
  then have "np_median (filter (\<lambda>r. r < max_est) (List.map_filter id (map ?r (combinations2 p))))
           = np_median (filter (\<lambda>r. r < max_est) (List.map_filter id (map ?r (combinations2 q))))"
    and "np_std (filter (\<lambda>r. r < max_est) (List.map_filter id (map ?r (combinations2 p))))
           = np_std (filter (\<lambda>r. r < max_est) (List.map_filter id (map ?r (combinations2 q))))"
    by (rule np_median_cong, rule np_std_cong)
  then show ?thesis
    unfolding estimate_scale_point_sets_def Let_def map2_map_map combinations2_Nil_iff len st
      case_prod_beta
    by simp
qed

end
